theory Spec2Isabelle
  imports Complex_Main "HOL-Library.Word" "HOL-Library.Multiset"
begin

section \<open>cfrand: a generator mixing a server digest with local entropy\<close>

text \<open>
  The development follows \<^verbatim>\<open>client/cfrand.py\<close>. Python's exceptions are values of
  \<open>error\<close>, named after the exception class and carrying the message of the
  \<^verbatim>\<open>raise\<close>. The specification's error kinds are these exceptions: DomainError is
  \<^verbatim>\<open>ValueError("upper must be positive")\<close>, RangeError is the \<^verbatim>\<open>ValueError\<close> of
  \<^verbatim>\<open>randrange\<close>, EmptyInputError is the \<^verbatim>\<open>IndexError\<close> of \<^verbatim>\<open>choice\<close> and SeedError is
  the \<^verbatim>\<open>RuntimeError\<close> of construction.
\<close>

subsection \<open>State\<close>

type_synonym byte = "8 word"

datatype error =
    ValueError string
  | IndexError string
  | RuntimeError string
  | TypeError string
  | OverflowError string
  | AttributeError string
  | UnicodeDecodeError string
  | JSONDecodeError string

text \<open>
  A generator owns \<open>server_bytes\<close>. The platform's entropy facility \<^verbatim>\<open>os.urandom\<close> is
  a tape of bytes, \<open>tape\<close>, of which \<open>consumed\<close> bytes have been handed out so far:
  drawing entropy advances \<open>consumed\<close> and nothing else does.
\<close>

record rng =
  server_bytes :: "byte list"
  tape :: "nat \<Rightarrow> byte"
  consumed :: nat

definition urandom :: "nat \<Rightarrow> rng \<Rightarrow> byte list \<times> rng" where
  "urandom n s = (map (tape s) [consumed s ..< consumed s + n], s\<lparr>consumed := consumed s + n\<rparr>)"

subsection \<open>Blocks and bytes\<close>

text \<open>
  \<^verbatim>\<open>_xor_block\<close>: \<^verbatim>\<open>zip\<close> stops at the shorter argument, so the block has
  \<open>min 64 (length (server_bytes s))\<close> bytes.
\<close>

definition xor_block :: "rng \<Rightarrow> byte list \<times> rng" where
  "xor_block s =
     (let (entropy, s') = urandom 64 s
      in (map (\<lambda>(a, b). xor a b) (zip entropy (server_bytes s')), s'))"

text \<open>
  The \<^verbatim>\<open>while len(output) < length\<close> loop of \<^verbatim>\<open>_random_bytes\<close>. It does not end when
  the blocks are empty, so it lives in the option monad: \<open>None\<close> is a run that never
  returns.
\<close>

partial_function (option) random_bytes_loop :: "int \<Rightarrow> byte list \<Rightarrow> rng \<Rightarrow> (byte list \<times> rng) option" where
  "random_bytes_loop len output s =
     (if int (length output) < len
      then (case xor_block s of (block, s') \<Rightarrow> random_bytes_loop len (output @ block) s')
      else Some (output, s))"

declare random_bytes_loop.simps [code]

definition random_bytes :: "int \<Rightarrow> rng \<Rightarrow> (byte list \<times> rng) option" where
  "random_bytes len s =
     (if len \<le> 0 then Some ([], s)
      else Option.bind (random_bytes_loop len [] s)
             (\<lambda>(output, s'). Some (take (nat len) output, s')))"

subsection \<open>Bits\<close>

text \<open>\<^verbatim>\<open>int.from_bytes(data, "big")\<close>: the first byte is the most significant.\<close>

definition from_bytes_big :: "byte list \<Rightarrow> int" where
  "from_bytes_big data = foldl (\<lambda>acc b. acc * 256 + uint b) 0 data"

text \<open>
  \<^verbatim>\<open>_randbits\<close>. Python's \<^verbatim>\<open>//\<close> is floor division, as \<open>div\<close> on \<open>int\<close> is, and
  \<^verbatim>\<open>>>\<close> on a non-negative count is \<open>drop_bit\<close>. A negative count would raise, but
  \<open>excess\<close> is never negative (lemma \<open>excess_range\<close> below).
\<close>

definition randbits :: "int \<Rightarrow> rng \<Rightarrow> (int \<times> rng) option" where
  "randbits k s =
     (let byte_len = (k + 7) div 8
      in Option.bind (random_bytes byte_len s)
           (\<lambda>(data, s').
              let val = from_bytes_big data;
                  excess = byte_len * 8 - k
              in Some (if excess \<noteq> 0 then drop_bit (nat excess) val else val, s')))"

text \<open>
  \<^verbatim>\<open>int.bit_length()\<close>: the number of binary digits of the absolute value, \<open>0\<close> for
  \<open>0\<close>.
\<close>

function bit_length :: "int \<Rightarrow> nat" where
  "bit_length n = (if n = 0 then 0 else Suc (bit_length (\<bar>n\<bar> div 2)))"
  by pat_completeness auto
termination
  by (relation "measure (\<lambda>n. nat \<bar>n\<bar>)") auto

declare bit_length.simps [simp del]

subsection \<open>Rejection sampling\<close>

text \<open>
  The \<^verbatim>\<open>while True\<close> loop of \<^verbatim>\<open>_randbelow\<close>: it returns at the first candidate below
  \<open>upper\<close> and never if there is none, which is the value \<open>None\<close>.
\<close>

partial_function (option) randbelow_loop :: "int \<Rightarrow> int \<Rightarrow> rng \<Rightarrow> (int \<times> rng) option" where
  "randbelow_loop upper bit_size s =
     Option.bind (randbits bit_size s)
       (\<lambda>(candidate, s').
          if candidate < upper then Some (candidate, s')
          else randbelow_loop upper bit_size s')"

declare randbelow_loop.simps [code]

definition randbelow :: "int \<Rightarrow> rng \<Rightarrow> ((error + int) \<times> rng) option" where
  "randbelow upper s =
     (if upper \<le> 0 then Some (Inl (ValueError ''upper must be positive''), s)
      else map_option (\<lambda>(candidate, s'). (Inr candidate, s'))
             (randbelow_loop upper (int (bit_length upper)) s))"

text \<open>
  The candidates of a run of the loop, one by one: \<open>nth_draw k n s\<close> is what the call
  number \<open>n\<close> (from \<open>0\<close>) of \<^verbatim>\<open>_randbits(k)\<close> returns, and the state it leaves, when
  the calls start in \<open>s\<close>.
\<close>

fun nth_draw :: "int \<Rightarrow> nat \<Rightarrow> rng \<Rightarrow> (int \<times> rng) option" where
  "nth_draw k 0 s = randbits k s"
| "nth_draw k (Suc n) s = Option.bind (randbits k s) (\<lambda>(candidate, s'). nth_draw k n s')"


subsection \<open>Derived operations\<close>

text \<open>
  \<^verbatim>\<open>random\<close>: \<^verbatim>\<open>value / (1 << 53)\<close> is Python's true division of two integers, the
  binary64 number nearest to the quotient. The model keeps the quotient itself, a real
  number; \<open>is_binary64\<close> says that a real number is one of the binary64 values
  \<open>m / 2 ^ e\<close> with \<open>\<bar>m\<bar> < 2 ^ 53\<close> and \<open>e \<le> 1074\<close>, for which the division does
  not round.
\<close>

definition random :: "rng \<Rightarrow> (real \<times> rng) option" where
  "random s = Option.bind (randbits 53 s) (\<lambda>(val, s'). Some (real_of_int val / 2 ^ 53, s'))"

definition is_binary64 :: "real \<Rightarrow> bool" where
  "is_binary64 x = (\<exists>(m::int) (e::nat). \<bar>m\<bar> < 2 ^ 53 \<and> e \<le> 1074 \<and> x = real_of_int m / 2 ^ e)"

text \<open>
  Python's \<^verbatim>\<open>range(start, stop, step)\<close> for \<open>step \<noteq> 0\<close>: its \<^verbatim>\<open>len\<close>, its indexing
  (a negative index counts from the end, an index out of range raises) and the list of
  its elements.
\<close>

definition range_len :: "int \<Rightarrow> int \<Rightarrow> int \<Rightarrow> int" where
  "range_len start stop step =
     (if 0 < step then (if start < stop then (stop - start - 1) div step + 1 else 0)
      else (if stop < start then (start - stop - 1) div (- step) + 1 else 0))"

text \<open>
  \<^verbatim>\<open>len(rng)\<close>: CPython's \<^verbatim>\<open>len\<close> returns a C \<^verbatim>\<open>ssize_t\<close> and raises \<^verbatim>\<open>OverflowError\<close>
  for a range of more than \<^verbatim>\<open>sys.maxsize\<close> elements; \<open>sys_maxsize\<close> is its value on a
  64-bit platform.
\<close>

definition sys_maxsize :: int where
  "sys_maxsize = 2 ^ 63 - 1"

definition py_len_range :: "int \<Rightarrow> int \<Rightarrow> int \<Rightarrow> error + int" where
  "py_len_range start stop step =
     (let n = range_len start stop step
      in if sys_maxsize < n then Inl (OverflowError ''Python int too large to convert to C ssize_t'')
         else Inr n)"

definition range_getitem :: "int \<Rightarrow> int \<Rightarrow> int \<Rightarrow> int \<Rightarrow> error + int" where
  "range_getitem start stop step i =
     (let n = range_len start stop step;
          j = (if i < 0 then i + n else i)
      in if j < 0 \<or> n \<le> j then Inl (IndexError ''range object index out of range'')
         else Inr (start + j * step))"

definition py_range :: "int \<Rightarrow> int \<Rightarrow> int \<Rightarrow> int list" where
  "py_range start stop step =
     map (\<lambda>i. start + int i * step) [0 ..< nat (range_len start stop step)]"

text \<open>
  \<^verbatim>\<open>randrange\<close>; \<open>stop = None\<close> is the call with one bound, and \<open>cnt\<close> is the
  source's \<^verbatim>\<open>count\<close>.
\<close>

definition randrange :: "int \<Rightarrow> int option \<Rightarrow> int \<Rightarrow> rng \<Rightarrow> ((error + int) \<times> rng) option" where
  "randrange start0 stop0 step s =
     (let (start, stop) = (case stop0 of None \<Rightarrow> (0, start0) | Some st \<Rightarrow> (start0, st))
      in if step = 0 then Some (Inl (ValueError ''step must not be zero''), s)
         else (case py_len_range start stop step of
                 Inl e \<Rightarrow> Some (Inl e, s)
               | Inr cnt \<Rightarrow>
                  if cnt \<le> 0 then Some (Inl (ValueError ''empty range for randrange()''), s)
                  else Option.bind (randbelow cnt s)
                         (\<lambda>(r, s'). case r of
                              Inl e \<Rightarrow> Some (Inl e, s')
                            | Inr index \<Rightarrow> Some (range_getitem start stop step index, s'))))"

definition randint :: "int \<Rightarrow> int \<Rightarrow> rng \<Rightarrow> ((error + int) \<times> rng) option" where
  "randint a b s = randrange a (Some (b + 1)) 1 s"

text \<open>Python's list indexing and item assignment.\<close>

definition list_getitem :: "'a list \<Rightarrow> int \<Rightarrow> error + 'a" where
  "list_getitem xs i =
     (let n = int (length xs);
          j = (if i < 0 then i + n else i)
      in if j < 0 \<or> n \<le> j then Inl (IndexError ''list index out of range'')
         else Inr (xs ! nat j))"

definition list_setitem :: "'a list \<Rightarrow> int \<Rightarrow> 'a \<Rightarrow> error + 'a list" where
  "list_setitem xs i v =
     (let n = int (length xs);
          j = (if i < 0 then i + n else i)
      in if j < 0 \<or> n \<le> j then Inl (IndexError ''list assignment index out of range'')
         else Inr (xs[nat j := v]))"

definition choice :: "'a list \<Rightarrow> rng \<Rightarrow> ((error + 'a) \<times> rng) option" where
  "choice seq s =
     (let seq_list = seq
      in if seq_list = [] then Some (Inl (IndexError ''Cannot choose from an empty sequence''), s)
         else Option.bind (randbelow (int (length seq_list)) s)
                (\<lambda>(r, s'). case r of
                     Inl e \<Rightarrow> Some (Inl e, s')
                   | Inr index \<Rightarrow> Some (list_getitem seq_list index, s')))"

text \<open>
  \<^verbatim>\<open>x[i], x[j] = x[j], x[i]\<close> reads \<^verbatim>\<open>x[j]\<close>, then \<^verbatim>\<open>x[i]\<close>, then stores into
  \<^verbatim>\<open>x[i]\<close>, then into \<^verbatim>\<open>x[j]\<close>. The list is mutated in place, so the result is the
  exception, if one was raised, and the list as it is then.
\<close>

definition swap_items :: "'a list \<Rightarrow> int \<Rightarrow> int \<Rightarrow> error option \<times> 'a list" where
  "swap_items x i j =
     (case list_getitem x j of
        Inl e \<Rightarrow> (Some e, x)
      | Inr a \<Rightarrow>
         (case list_getitem x i of
            Inl e \<Rightarrow> (Some e, x)
          | Inr b \<Rightarrow>
             (case list_setitem x i a of
                Inl e \<Rightarrow> (Some e, x)
              | Inr x' \<Rightarrow>
                 (case list_setitem x' j b of
                    Inl e \<Rightarrow> (Some e, x')
                  | Inr x'' \<Rightarrow> (None, x'')))))"

text \<open>
  \<^verbatim>\<open>shuffle\<close>. The \<^verbatim>\<open>for\<close> loop runs over the elements of the range; its body calls
  the sampler \<open>rb\<close>, which is \<open>randbelow\<close> in \<open>shuffle\<close>. The result is the exception
  raised (if any), the list as the call leaves it and the state of the generator.
\<close>

fun shuffle_loop ::
  "(int \<Rightarrow> rng \<Rightarrow> ((error + int) \<times> rng) option) \<Rightarrow> int list \<Rightarrow> 'a list \<Rightarrow> rng
     \<Rightarrow> (error option \<times> 'a list \<times> rng) option" where
  "shuffle_loop rb [] x s = Some (None, x, s)"
| "shuffle_loop rb (i # indices) x s =
     Option.bind (rb (i + 1) s)
       (\<lambda>(r, s'). case r of
            Inl e \<Rightarrow> Some (Some e, x, s')
          | Inr j \<Rightarrow>
             (case swap_items x i j of
                (Some e, x') \<Rightarrow> Some (Some e, x', s')
              | (None, x') \<Rightarrow> shuffle_loop rb indices x' s'))"

definition shuffle_with ::
  "(int \<Rightarrow> rng \<Rightarrow> ((error + int) \<times> rng) option) \<Rightarrow> 'a list \<Rightarrow> rng
     \<Rightarrow> (error option \<times> 'a list \<times> rng) option" where
  "shuffle_with rb x s =
     (if length x < 2 then Some (None, x, s)
      else shuffle_loop rb (py_range (int (length x) - 1) 0 (- 1)) x s)"

definition shuffle :: "'a list \<Rightarrow> rng \<Rightarrow> (error option \<times> 'a list \<times> rng) option" where
  "shuffle x s = shuffle_with randbelow x s"

text \<open>
  Fisher--Yates as the specification words it: \<open>i\<close> goes from \<open>len - 1\<close> down to \<open>1\<close>,
  each step draws \<open>j = randBelow(i + 1)\<close> and swaps the elements at \<open>i\<close> and \<open>j\<close>.
\<close>

fun fisher_yates :: "nat \<Rightarrow> 'a list \<Rightarrow> rng \<Rightarrow> (error option \<times> 'a list \<times> rng) option" where
  "fisher_yates 0 x s = Some (None, x, s)"
| "fisher_yates (Suc i) x s =
     Option.bind (randbelow (int (Suc i) + 1) s)
       (\<lambda>(r, s'). case r of
            Inl e \<Rightarrow> Some (Some e, x, s')
          | Inr j \<Rightarrow> fisher_yates i (x[Suc i := x ! nat j, nat j := x ! Suc i]) s')"

subsection \<open>Construction\<close>

text \<open>
  What \<^verbatim>\<open>json.loads\<close> returns: a JSON value. An object is the list of its members in
  the order of the text; of two members with one name the later one counts.
\<close>

datatype json =
    JNull
  | JBool bool
  | JNumber real
  | JString string
  | JArray "json list"
  | JObject "(string \<times> json) list"

text \<open>
  The body of the answer, as \<^verbatim>\<open>resp.read().decode()\<close> and \<^verbatim>\<open>json.loads\<close> take it: bytes
  that are not UTF-8, text that is not JSON, or a JSON value.
\<close>

datatype body = Undecodable | Malformed | Parsed json

record response =
  status :: int
  body :: body

text \<open>Python's truth value of a parsed JSON value (\<^verbatim>\<open>if not hex_digest\<close>).\<close>

fun truthy :: "json \<Rightarrow> bool" where
  "truthy JNull = False"
| "truthy (JBool b) = b"
| "truthy (JNumber n) = (n \<noteq> 0)"
| "truthy (JString str) = (str \<noteq> [])"
| "truthy (JArray xs) = (xs \<noteq> [])"
| "truthy (JObject kvs) = (kvs \<noteq> [])"

text \<open>
  \<^verbatim>\<open>bytes.fromhex\<close>: two hexadecimal digits for each byte, ASCII whitespace skipped
  between bytes; \<open>None\<close> is its \<^verbatim>\<open>ValueError\<close>.
\<close>

definition hex_digit :: "char \<Rightarrow> nat option" where
  "hex_digit c =
     (let n = of_char c :: nat
      in if 48 \<le> n \<and> n \<le> 57 then Some (n - 48)
         else if 97 \<le> n \<and> n \<le> 102 then Some (n - 87)
         else if 65 \<le> n \<and> n \<le> 70 then Some (n - 55)
         else None)"

definition is_space :: "char \<Rightarrow> bool" where
  "is_space c = (let n = of_char c :: nat in n = 32 \<or> (9 \<le> n \<and> n \<le> 13))"

fun fromhex :: "string \<Rightarrow> byte list option" where
  "fromhex [] = Some []"
| "fromhex [c] = (if is_space c then Some [] else None)"
| "fromhex (c # d # rest) =
     (if is_space c then fromhex (d # rest)
      else (case (hex_digit c, hex_digit d) of
              (Some hi, Some lo) \<Rightarrow> map_option ((#) (of_nat (hi * 16 + lo))) (fromhex rest)
            | _ \<Rightarrow> None))"

text \<open>The decimal form of an integer, as the f-string of the status message writes it.\<close>

function decimal :: "nat \<Rightarrow> string" where
  "decimal n =
     (if n < 10 then [''0123456789'' ! n]
      else decimal (n div 10) @ [''0123456789'' ! (n mod 10)])"
  by pat_completeness auto
termination
  by (relation "measure (\<lambda>n. n)") auto

declare decimal.simps [simp del]

definition str_int :: "int \<Rightarrow> string" where
  "str_int i = (if i < 0 then CHR ''-'' # decimal (nat (- i)) else decimal (nat i))"

text \<open>
  \<^verbatim>\<open>_fetch_seed\<close>. Its argument is what \<^verbatim>\<open>urlopen\<close> does: it raises (\<open>Inl\<close>, and the
  exception leaves \<^verbatim>\<open>_fetch_seed\<close> as it is) or it returns a response. The result is
  the exception raised or the bytes stored in \<^verbatim>\<open>self._server_bytes\<close>. Only the
  \<^verbatim>\<open>ValueError\<close> of \<^verbatim>\<open>bytes.fromhex\<close> is caught and raised again as \<^verbatim>\<open>RuntimeError\<close>; its
  \<^verbatim>\<open>TypeError\<close> for an argument that is not a string is not.
\<close>

definition fetch_seed :: "error + response \<Rightarrow> error + byte list" where
  "fetch_seed net =
     (case net of
        Inl e \<Rightarrow> Inl e
      | Inr resp \<Rightarrow>
         if status resp \<noteq> 200
         then Inl (RuntimeError (''Worker responded with status '' @ str_int (status resp)))
         else (case body resp of
                 Undecodable \<Rightarrow> Inl (UnicodeDecodeError ''invalid start byte'')
               | Malformed \<Rightarrow> Inl (JSONDecodeError ''Expecting value'')
               | Parsed payload \<Rightarrow>
                  (case payload of
                     JObject members \<Rightarrow>
                      (case map_of (rev members) ''hash_sha3_512'' of
                         None \<Rightarrow> Inl (RuntimeError ''Worker response missing hash_sha3_512'')
                       | Some hex_digest \<Rightarrow>
                          if \<not> truthy hex_digest
                          then Inl (RuntimeError ''Worker response missing hash_sha3_512'')
                          else (case hex_digest of
                                  JString h \<Rightarrow>
                                   (case fromhex h of
                                      None \<Rightarrow> Inl (RuntimeError ''Worker hash is not valid hex'')
                                    | Some decoded \<Rightarrow>
                                       if length decoded \<noteq> 64
                                       then Inl (RuntimeError ''Worker hash is not 512 bits'')
                                       else Inr decoded)
                                | _ \<Rightarrow> Inl (TypeError ''fromhex() argument must be str'')))
                   | _ \<Rightarrow> Inl (AttributeError ''object has no attribute get''))))"

text \<open>
  \<^verbatim>\<open>CFRand.__init__\<close>: \<open>url\<close> is the argument, \<open>env_url\<close> the value of \<^verbatim>\<open>CFRAND_URL\<close> in
  the environment, \<open>net\<close> what \<^verbatim>\<open>urlopen\<close> does. A generator exists only when the
  result is \<open>Inr\<close>.
\<close>

definition CFRand_init ::
  "string option \<Rightarrow> string option \<Rightarrow> error + response \<Rightarrow> (nat \<Rightarrow> byte) \<Rightarrow> nat \<Rightarrow> error + rng" where
  "CFRand_init url env_url net tp pos =
     (let u = (case url of None \<Rightarrow> env_url | Some a \<Rightarrow> if a = [] then env_url else Some a)
      in if u = None \<or> u = Some [] then Inl (RuntimeError ''CFRAND_URL is not set; add it to .env'')
         else (case fetch_seed net of
                 Inl e \<Rightarrow> Inl e
               | Inr sb \<Rightarrow> Inr \<lparr>server_bytes = sb, tape = tp, consumed = pos\<rparr>))"

subsection \<open>An example generator\<close>

text \<open>
  A generator with 64 server bytes \<open>0x5A\<close> on an entropy tape whose byte number \<open>i\<close>
  is \<open>37 i + 11\<close> (modulo 256), 128 bytes of which are already consumed.
\<close>

definition example_rng :: rng where
  "example_rng = \<lparr>server_bytes = replicate 64 0x5A, tape = (\<lambda>i. of_nat (i * 37 + 11)), consumed = 128\<rparr>"

section \<open>Properties\<close>

subsection \<open>Blocks, bytes and bits\<close>

lemma urandom_state: "snd (urandom n s) = s\<lparr>consumed := consumed s + n\<rparr>"
  by (simp add: urandom_def)

lemma xor_block_length: "length (fst (xor_block s)) = min 64 (length (server_bytes s))"
  by (simp add: xor_block_def urandom_def)

lemma xor_block_state: "snd (xor_block s) = s\<lparr>consumed := consumed s + 64\<rparr>"
  by (simp add: xor_block_def urandom_def)

lemma random_bytes_loop_returns:
  assumes "server_bytes s \<noteq> []"
  shows "\<exists>out' s'. random_bytes_loop len out s = Some (out', s') \<and> len \<le> int (length out')
           \<and> server_bytes s' = server_bytes s \<and> tape s' = tape s \<and> consumed s \<le> consumed s'"
  using assms
proof (induction "nat (len - int (length out))" arbitrary: out s rule: less_induct)
  case less
  show ?case
  proof (cases "int (length out) < len")
    case False
    then show ?thesis
      by (subst random_bytes_loop.simps) simp
  next
    case True
    obtain block t where xb: "xor_block s = (block, t)"
      by (cases "xor_block s")
    have len_block: "length block = min 64 (length (server_bytes s))"
      using xor_block_length [of s] xb by simp
    have t_eq: "t = s\<lparr>consumed := consumed s + 64\<rparr>"
      using xor_block_state [of s] xb by simp
    have "0 < length block"
      using len_block less.prems by simp
    then have smaller: "nat (len - int (length (out @ block))) < nat (len - int (length out))"
      using True by simp
    have "server_bytes t \<noteq> []"
      using t_eq less.prems by simp
    from less.hyps [OF smaller this]
    obtain out' s' where rec: "random_bytes_loop len (out @ block) t = Some (out', s')"
      and props: "len \<le> int (length out')" "server_bytes s' = server_bytes t"
        "tape s' = tape t" "consumed t \<le> consumed s'"
      by blast
    have "random_bytes_loop len out s = Some (out', s')"
      using True xb rec by (subst random_bytes_loop.simps) simp
    then show ?thesis
      using props t_eq by simp
  qed
qed

lemma random_bytes_returns:
  assumes "server_bytes s \<noteq> []"
  shows "\<exists>data s'. random_bytes len s = Some (data, s') \<and> int (length data) = max 0 len
           \<and> server_bytes s' = server_bytes s \<and> tape s' = tape s \<and> consumed s \<le> consumed s'"
proof (cases "len \<le> 0")
  case True
  then show ?thesis by (simp add: random_bytes_def)
next
  case False
  from random_bytes_loop_returns [OF assms, of len "[]"]
  obtain out' s' where "random_bytes_loop len [] s = Some (out', s')"
      "len \<le> int (length out')" "server_bytes s' = server_bytes s" "tape s' = tape s"
      "consumed s \<le> consumed s'"
    by blast
  then show ?thesis
    using False by (simp add: random_bytes_def)
qed

lemma foldl_bytes_bounds:
  "0 \<le> acc \<Longrightarrow> 0 \<le> foldl (\<lambda>acc b. acc * 256 + uint b) acc (data :: byte list)
     \<and> foldl (\<lambda>acc b. acc * 256 + uint b) acc data < (acc + 1) * 256 ^ length data"
proof (induction data arbitrary: acc)
  case Nil
  then show ?case by simp
next
  case (Cons b data)
  have b0: "0 \<le> uint b" by simp
  have b1: "uint b < 256" using uint_bounded [of b] by simp
  have nonneg: "0 \<le> acc * 256 + uint b" using Cons.prems b0 by simp
  have "foldl (\<lambda>acc b. acc * 256 + uint b) (acc * 256 + uint b) data
          < (acc * 256 + uint b + 1) * 256 ^ length data"
    using Cons.IH [OF nonneg] by simp
  also have "\<dots> \<le> ((acc + 1) * 256) * 256 ^ length data"
    using b1 by (intro mult_right_mono) simp_all
  also have "\<dots> = (acc + 1) * 256 ^ length (b # data)"
    by simp
  finally have upper: "foldl (\<lambda>acc b. acc * 256 + uint b) (acc * 256 + uint b) data
          < (acc + 1) * 256 ^ length (b # data)" .
  show ?case
    using Cons.IH [OF nonneg] upper by simp
qed

lemma from_bytes_big_bounds:
  "0 \<le> from_bytes_big data \<and> from_bytes_big data < 256 ^ length data"
  using foldl_bytes_bounds [of 0 data] by (simp add: from_bytes_big_def)

lemma foldl_bytes_sum:
  "foldl (\<lambda>acc b. acc * 256 + uint b) acc (data :: byte list)
     = acc * 256 ^ length data + (\<Sum>i<length data. uint (data ! i) * 256 ^ (length data - 1 - i))"
proof (induction data arbitrary: acc)
  case Nil
  then show ?case by simp
next
  case (Cons b data)
  have shift: "(\<Sum>i<Suc (length data). uint ((b # data) ! i) * 256 ^ (Suc (length data) - 1 - i))
      = uint b * 256 ^ length data + (\<Sum>i<length data. uint (data ! i) * 256 ^ (length data - 1 - i))"
    by (subst sum.lessThan_Suc_shift) simp
  have "foldl (\<lambda>acc b. acc * 256 + uint b) acc (b # data)
      = (acc * 256 + uint b) * 256 ^ length data
          + (\<Sum>i<length data. uint (data ! i) * 256 ^ (length data - 1 - i))"
    by (simp add: Cons.IH)
  also have "\<dots> = acc * 256 ^ length (b # data)
          + (\<Sum>i<length (b # data). uint ((b # data) ! i) * 256 ^ (length (b # data) - 1 - i))"
    using shift by (simp add: algebra_simps)
  finally show ?case .
qed

lemma from_bytes_big_sum:
  "from_bytes_big data = (\<Sum>i<length data. uint (data ! i) * 256 ^ (length data - 1 - i))"
  using foldl_bytes_sum [of 0 data] by (simp add: from_bytes_big_def)

lemma excess_range: "0 \<le> ((k + 7) div 8) * 8 - k \<and> ((k + 7) div 8) * 8 - k < (8::int)"
  by presburger

lemma bit_length_bounds:
  "0 < n \<Longrightarrow> 2 ^ (bit_length n - 1) \<le> n \<and> n < 2 ^ bit_length n"
proof (induction n rule: bit_length.induct)
  case (1 n)
  show ?case
  proof (cases "n = 1")
    case True
    then show ?thesis by (simp add: bit_length.simps)
  next
    case False
    then have pos: "0 < \<bar>n\<bar> div 2" using "1.prems" by simp
    have ne: "n \<noteq> 0" using "1.prems" by simp
    from "1.IH" [OF ne pos]
    have ih: "2 ^ (bit_length (\<bar>n\<bar> div 2) - 1) \<le> \<bar>n\<bar> div 2" "\<bar>n\<bar> div 2 < 2 ^ bit_length (\<bar>n\<bar> div 2)"
      by simp_all
    have bl: "bit_length n = Suc (bit_length (\<bar>n\<bar> div 2))"
      using ne by (subst bit_length.simps) simp
    have blpos: "0 < bit_length (\<bar>n\<bar> div 2)"
      using pos by (subst bit_length.simps) simp
    then obtain m where m: "bit_length (\<bar>n\<bar> div 2) = Suc m"
      by (cases "bit_length (\<bar>n\<bar> div 2)") simp_all
    have step: "\<And>p::int. p \<le> n div 2 \<Longrightarrow> n div 2 < 2 * p \<Longrightarrow> 2 * p \<le> n \<and> n < 4 * p"
      by arith
    have "\<bar>n\<bar> = n" using "1.prems" by simp
    then show ?thesis
      using ih step [of "2 ^ m"] unfolding bl m by simp
  qed
qed

lemma randbits_shift: "randbits k s =
   Option.bind (random_bytes ((k + 7) div 8) s)
     (\<lambda>(data, s'). Some (from_bytes_big data div 2 ^ nat (((k + 7) div 8) * 8 - k), s'))"
  by (auto simp: randbits_def Let_def drop_bit_eq_div intro!: Option.bind_cong)

lemma randbits_nonneg: "randbits k s = Some (v, s') \<Longrightarrow> 0 \<le> v"
  using from_bytes_big_bounds
  by (auto simp: randbits_shift bind_eq_Some_conv pos_imp_zdiv_nonneg_iff)

lemma shift_below:
  fixes v :: int
  assumes "0 \<le> v" "v < 2 ^ (k + e)"
  shows "v div 2 ^ e < 2 ^ k"
proof -
  have eq: "v div 2 ^ e * 2 ^ e = v - v mod 2 ^ e"
    by (simp add: minus_mod_eq_div_mult)
  have "0 \<le> v mod 2 ^ e"
    by simp
  then have "v div 2 ^ e * 2 ^ e \<le> v"
    unfolding eq by linarith
  also have "v < 2 ^ k * 2 ^ e"
    using assms by (simp add: power_add)
  finally have "v div 2 ^ e * 2 ^ e < 2 ^ k * 2 ^ e" .
  then show ?thesis
    by (simp add: mult_less_cancel_right)
qed

lemma ceil_div8: "(k + 7) div 8 = \<lceil>real_of_int k / 8\<rceil>"
proof -
  have "\<lceil>real_of_int k / real_of_int 8\<rceil> = - (- k div 8)"
    by (rule ceiling_divide_eq_div)
  moreover have "- (- k div 8) = (k + 7) div 8"
    by presburger
  ultimately show ?thesis by simp
qed

lemma randbits_returns:
  assumes "server_bytes s \<noteq> []"
  shows "\<exists>v s'. randbits k s = Some (v, s') \<and> server_bytes s' = server_bytes s
           \<and> tape s' = tape s \<and> consumed s \<le> consumed s'"
proof -
  from random_bytes_returns [OF assms, of "(k + 7) div 8"]
  obtain data s' where "random_bytes ((k + 7) div 8) s = Some (data, s')"
    "server_bytes s' = server_bytes s" "tape s' = tape s" "consumed s \<le> consumed s'"
    by blast
  then show ?thesis
    by (simp add: randbits_shift)
qed

lemma nth_draw_returns:
  "server_bytes s \<noteq> [] \<Longrightarrow> \<exists>c s'. nth_draw k n s = Some (c, s') \<and> server_bytes s' = server_bytes s"
proof (induction n arbitrary: s)
  case 0
  then show ?case using randbits_returns [of s k] by auto
next
  case (Suc n)
  from randbits_returns [OF Suc.prems, of k]
  obtain v t where rb: "randbits k s = Some (v, t)" and sb: "server_bytes t = server_bytes s"
    by blast
  then have "server_bytes t \<noteq> []" using Suc.prems by simp
  from Suc.IH [OF this] show ?case
    using rb sb by auto
qed

lemma randbelow_loop_first_accepted:
  "nth_draw k n s = Some (c, s') \<Longrightarrow> c < upper \<Longrightarrow>
   (\<forall>m<n. \<forall>c' t. nth_draw k m s = Some (c', t) \<longrightarrow> \<not> c' < upper) \<Longrightarrow>
   randbelow_loop upper k s = Some (c, s')"
proof (induction n arbitrary: s)
  case 0
  then show ?case
    by (subst randbelow_loop.simps) simp
next
  case (Suc n)
  from Suc.prems(1) obtain c0 s0 where first: "randbits k s = Some (c0, s0)"
    and rest: "nth_draw k n s0 = Some (c, s')"
    by (auto simp: bind_eq_Some_conv)
  have "nth_draw k 0 s = Some (c0, s0)"
    using first by simp
  then have rejected: "\<not> c0 < upper"
    using Suc.prems(3) by blast
  have "\<forall>m<n. \<forall>c' t. nth_draw k m s0 = Some (c', t) \<longrightarrow> \<not> c' < upper"
  proof (intro allI impI)
    fix m c' t
    assume "m < n" and "nth_draw k m s0 = Some (c', t)"
    then have "Suc m < Suc n" and "nth_draw k (Suc m) s = Some (c', t)"
      using first by simp_all
    then show "\<not> c' < upper"
      using Suc.prems(3) by blast
  qed
  from Suc.IH [OF rest Suc.prems(2) this]
  show ?case
    using first rejected by (subst randbelow_loop.simps) simp
qed

lemma randbelow_loop_sound:
  assumes "randbelow_loop upper k s = Some r"
  shows "\<exists>n. nth_draw k n s = Some r \<and> fst r < upper \<and>
       (\<forall>m<n. \<forall>c' t. nth_draw k m s = Some (c', t) \<longrightarrow> \<not> c' < upper)"
proof -
  let ?P = "\<lambda>upper k s r. \<exists>n. nth_draw k n s = Some r \<and> fst r < upper \<and>
       (\<forall>m<n. \<forall>c' t. nth_draw k m s = Some (c', t) \<longrightarrow> \<not> c' < upper)"
  show "?P upper k s r"
  proof (rule randbelow_loop.raw_induct [where P = ?P, OF _ assms])
    fix loop upper k s r
    assume IH: "\<And>upper k s r. loop upper k s = Some r \<Longrightarrow> ?P upper k s r"
      and body: "Option.bind (randbits k s)
          (\<lambda>(candidate, s'). if candidate < upper then Some (candidate, s') else loop upper k s')
        = Some r"
    from body obtain c0 s0 where first: "randbits k s = Some (c0, s0)"
      and branch: "(if c0 < upper then Some (c0, s0) else loop upper k s0) = Some r"
      by (auto simp: bind_eq_Some_conv)
    show "?P upper k s r"
    proof (cases "c0 < upper")
      case True
      then have "nth_draw k 0 s = Some r \<and> fst r < upper"
        using first branch by auto
      then show ?thesis by blast
    next
      case False
      then have "loop upper k s0 = Some r"
        using branch by simp
      from IH [OF this] obtain n where n: "nth_draw k n s0 = Some r" "fst r < upper"
        "\<forall>m<n. \<forall>c' t. nth_draw k m s0 = Some (c', t) \<longrightarrow> \<not> c' < upper"
        by blast
      have "nth_draw k (Suc n) s = Some r"
        using first n(1) by simp
      moreover have "\<forall>m<Suc n. \<forall>c' t. nth_draw k m s = Some (c', t) \<longrightarrow> \<not> c' < upper"
      proof (intro allI impI)
        fix m c' t
        assume m: "m < Suc n" and d: "nth_draw k m s = Some (c', t)"
        show "\<not> c' < upper"
        proof (cases m)
          case 0
          then show ?thesis using d first False by simp
        next
          case (Suc m')
          then show ?thesis using d first m n(3) by simp
        qed
      qed
      ultimately show ?thesis using n(2) by blast
    qed
  qed
qed

subsection \<open>Closed forms and the example generator\<close>

lemma bit_length_least:
  assumes "0 < n" "n < 2 ^ b"
  shows "bit_length n \<le> b"
proof -
  have "(2::int) ^ (bit_length n - 1) \<le> n"
    using bit_length_bounds [OF assms(1)] by simp
  then have "(2::int) ^ (bit_length n - 1) < 2 ^ b"
    using assms(2) by linarith
  then have "bit_length n - 1 < b"
    by (simp add: power_strict_increasing_iff)
  then show ?thesis by simp
qed

lemma randbits_data:
  assumes "1 \<le> k" and "server_bytes s \<noteq> []"
  shows "\<exists>data s'. random_bytes ((k + 7) div 8) s = Some (data, s')
      \<and> int (length data) = (k + 7) div 8
      \<and> randbits k s = Some (from_bytes_big data div 2 ^ nat (((k + 7) div 8) * 8 - k), s')
      \<and> 0 \<le> from_bytes_big data div 2 ^ nat (((k + 7) div 8) * 8 - k)
      \<and> from_bytes_big data div 2 ^ nat (((k + 7) div 8) * 8 - k) < 2 ^ nat k"
proof -
  let ?n = "(k + 7) div 8"
  let ?e = "nat (?n * 8 - k)"
  have npos: "0 < ?n" using assms(1) by presburger
  from random_bytes_returns [OF assms(2), of ?n]
  obtain data s' where rb: "random_bytes ?n s = Some (data, s')"
    and len: "int (length data) = max 0 ?n"
    by blast
  have len': "int (length data) = ?n" using len npos by simp
  have bits: "8 * length data = nat k + ?e"
    using len' assms(1) excess_range [of k] by (simp add: nat_eq_iff)
  have fb: "0 \<le> from_bytes_big data" "from_bytes_big data < 256 ^ length data"
    using from_bytes_big_bounds [of data] by simp_all
  have "(256::int) ^ length data = 2 ^ (8 * length data)"
    by (simp add: power_mult)
  then have "from_bytes_big data < 2 ^ (nat k + ?e)"
    using fb(2) bits by simp
  then have up: "from_bytes_big data div 2 ^ ?e < 2 ^ nat k"
    using fb(1) by (rule shift_below [rotated])
  have lo: "0 \<le> from_bytes_big data div 2 ^ ?e"
    using fb(1) by (simp add: pos_imp_zdiv_nonneg_iff)
  have "randbits k s = Some (from_bytes_big data div 2 ^ ?e, s')"
    using rb by (simp add: randbits_shift)
  then show ?thesis
    using rb len' lo up by blast
qed

lemma randbelow_positive:
  "0 < upper \<Longrightarrow> randbelow upper s
     = map_option (\<lambda>(candidate, s'). (Inr candidate, s')) (randbelow_loop upper (int (bit_length upper)) s)"
  by (simp add: randbelow_def)

lemma nth_draw_nonneg: "nth_draw k n s = Some (c, s') \<Longrightarrow> 0 \<le> c"
proof (induction n arbitrary: s)
  case 0
  then show ?case using randbits_nonneg by simp
next
  case (Suc n)
  then show ?case by (auto simp: bind_eq_Some_conv)
qed

lemma first_accepted_exists:
  assumes "nth_draw k n s = Some (c, t)" "c < upper"
  shows "\<exists>n' c' t'. nth_draw k n' s = Some (c', t') \<and> c' < upper
           \<and> (\<forall>m<n'. \<forall>c'' t''. nth_draw k m s = Some (c'', t'') \<longrightarrow> \<not> c'' < upper)"
proof -
  let ?A = "\<lambda>n. \<exists>c t. nth_draw k n s = Some (c, t) \<and> c < upper"
  have ex: "?A n" using assms by blast
  define n' where "n' = (LEAST n. ?A n)"
  have "?A n'" unfolding n'_def using ex by (rule LeastI)
  moreover have "\<And>m. m < n' \<Longrightarrow> \<not> ?A m"
    unfolding n'_def by (rule not_less_Least)
  ultimately show ?thesis by blast
qed

lemma random_bytes_one:
  assumes "server_bytes s \<noteq> []"
  shows "random_bytes 1 s
     = Some ([xor (tape s (consumed s)) (hd (server_bytes s))], s\<lparr>consumed := consumed s + 64\<rparr>)"
proof -
  obtain b bs where sb: "server_bytes s = b # bs"
    using assms by (cases "server_bytes s") auto
  have up: "[consumed s..<consumed s + 64] = consumed s # [Suc (consumed s)..<consumed s + 64]"
    by (simp add: upt_conv_Cons)
  obtain rest where xb: "xor_block s = (xor (tape s (consumed s)) b # rest, s\<lparr>consumed := consumed s + 64\<rparr>)"
    unfolding xor_block_def urandom_def using sb up by simp
  have "random_bytes_loop 1 [] s
      = Some (xor (tape s (consumed s)) b # rest, s\<lparr>consumed := consumed s + 64\<rparr>)"
    apply (subst random_bytes_loop.simps)
    apply (simp add: xb)
    apply (subst random_bytes_loop.simps)
    apply simp
    done
  then show ?thesis
    using sb by (simp add: random_bytes_def)
qed

lemma randbits_one_byte:
  assumes "1 \<le> k" "k \<le> 8" "server_bytes s \<noteq> []"
  shows "randbits k s
     = Some (drop_bit (nat (8 - k)) (uint (xor (tape s (consumed s)) (hd (server_bytes s)))),
             s\<lparr>consumed := consumed s + 64\<rparr>)"
proof -
  have "(k + 7) div 8 = 1" using assms(1,2) by presburger
  then show ?thesis
    using random_bytes_one [OF assms(3)]
    by (simp add: randbits_shift from_bytes_big_def drop_bit_eq_div)
qed

lemma example_randbits_0: "randbits 3 example_rng = Some (6, example_rng\<lparr>consumed := 192\<rparr>)"
  by (simp add: randbits_one_byte example_rng_def)

lemma example_randbits_1: "randbits 3 (example_rng\<lparr>consumed := 192\<rparr>) = Some (4, example_rng\<lparr>consumed := 256\<rparr>)"
  by (simp add: randbits_one_byte example_rng_def)

lemma example_randbits_2: "randbits 3 (example_rng\<lparr>consumed := 256\<rparr>) = Some (2, example_rng\<lparr>consumed := 320\<rparr>)"
  by (simp add: randbits_one_byte example_rng_def)

lemma bit_length_4: "bit_length 4 = 3"
  by (simp add: bit_length.simps)

lemma example_draws:
  "nth_draw 3 0 example_rng = Some (6, example_rng\<lparr>consumed := 192\<rparr>)"
  "nth_draw 3 (Suc 0) example_rng = Some (4, example_rng\<lparr>consumed := 256\<rparr>)"
  "nth_draw 3 (Suc (Suc 0)) example_rng = Some (2, example_rng\<lparr>consumed := 320\<rparr>)"
  by (simp_all add: example_randbits_0 example_randbits_1 example_randbits_2)

lemma example_rejected:
  "\<forall>m<Suc (Suc 0). \<forall>c' t. nth_draw 3 m example_rng = Some (c', t) \<longrightarrow> \<not> c' < 4"
proof (intro allI impI)
  fix m c' t
  assume "m < Suc (Suc 0)" and e: "nth_draw 3 m example_rng = Some (c', t)"
  then consider "m = 0" | "m = Suc 0" by linarith
  then show "\<not> c' < 4"
  proof cases
    case 1 then show ?thesis using example_draws(1) e by simp
  next
    case 2 then show ?thesis using example_draws(2) e by simp
  qed
qed

lemma example_randbelow_4:
  "randbelow 4 example_rng = Some (Inr 2, example_rng\<lparr>consumed := 320\<rparr>)"
proof -
  have "randbelow_loop 4 3 example_rng = Some (2, example_rng\<lparr>consumed := 320\<rparr>)"
    apply (subst randbelow_loop.simps, simp add: example_randbits_0)
    apply (subst randbelow_loop.simps, simp add: example_randbits_1)
    apply (subst randbelow_loop.simps, simp add: example_randbits_2)
    done
  then show ?thesis
    by (simp add: randbelow_def bit_length_4)
qed

subsection \<open>Ranges, indexing and the sampler's range\<close>

lemma randbelow_in_range:
  assumes "0 < upper" "randbelow upper s = Some (r, s')"
  shows "\<exists>v. r = Inr v \<and> 0 \<le> v \<and> v < upper"
proof -
  from assms obtain c where r: "r = Inr c"
    and loop: "randbelow_loop upper (int (bit_length upper)) s = Some (c, s')"
    by (auto simp: randbelow_positive)
  from randbelow_loop_sound [OF loop] obtain n where
    "nth_draw (int (bit_length upper)) n s = Some (c, s')" "c < upper"
    by auto
  then show ?thesis
    using r nth_draw_nonneg by blast
qed








lemma list_getitem_in_range:
  "i < length xs \<Longrightarrow> list_getitem xs (int i) = Inr (xs ! i)"
  by (simp add: list_getitem_def Let_def)

subsection \<open>Swaps and the shuffle loop\<close>

lemma list_getitem_cases:
  fixes xs :: "'a list"
  shows "list_getitem xs i = Inl (IndexError ''list index out of range'')
   \<or> (\<exists>n<length xs. list_getitem xs i = Inr (xs ! n)
         \<and> (\<forall>(ys :: 'a list) v. length ys = length xs \<longrightarrow> list_setitem ys i v = Inr (ys[n := v])))"
proof -
  let ?n = "int (length xs)"
  let ?j = "if i < 0 then i + ?n else i"
  show ?thesis
  proof (cases "?j < 0 \<or> ?n \<le> ?j")
    case True
    then show ?thesis by (simp add: list_getitem_def Let_def)
  next
    case False
    then have "nat ?j < length xs" by auto
    moreover have "list_getitem xs i = Inr (xs ! nat ?j)"
      using False by (simp add: list_getitem_def Let_def)
    moreover have "\<forall>(ys :: 'a list) v. length ys = length xs \<longrightarrow> list_setitem ys i v = Inr (ys[nat ?j := v])"
      using False by (simp add: list_setitem_def Let_def)
    ultimately show ?thesis by blast
  qed
qed

lemma swap_items_mset:
  fixes x :: "'a list"
  shows "mset (snd (swap_items x i j)) = mset x"
proof -
  from list_getitem_cases [of x j] show ?thesis
  proof
    assume "list_getitem x j = Inl (IndexError ''list index out of range'')"
    then show ?thesis by (simp add: swap_items_def)
  next
    assume "\<exists>n<length x. list_getitem x j = Inr (x ! n)
         \<and> (\<forall>(ys :: 'a list) v. length ys = length x \<longrightarrow> list_setitem ys j v = Inr (ys[n := v]))"
    then obtain n where n: "n < length x" "list_getitem x j = Inr (x ! n)"
      "\<And>(ys :: 'a list) v. length ys = length x \<Longrightarrow> list_setitem ys j v = Inr (ys[n := v])"
      by blast
    from list_getitem_cases [of x i] show ?thesis
    proof
      assume "list_getitem x i = Inl (IndexError ''list index out of range'')"
      then show ?thesis using n(2) by (simp add: swap_items_def)
    next
      assume "\<exists>m<length x. list_getitem x i = Inr (x ! m)
         \<and> (\<forall>(ys :: 'a list) v. length ys = length x \<longrightarrow> list_setitem ys i v = Inr (ys[m := v]))"
      then obtain m where m: "m < length x" "list_getitem x i = Inr (x ! m)"
        "\<And>(ys :: 'a list) v. length ys = length x \<Longrightarrow> list_setitem ys i v = Inr (ys[m := v])"
        by blast
      have first: "list_setitem x i (x ! n) = Inr (x[m := x ! n])"
        by (rule m(3)) simp
      have second: "list_setitem (x[m := x ! n]) j (x ! m) = Inr (x[m := x ! n, n := x ! m])"
        by (rule n(3)) simp
      have "swap_items x i j = (None, x[m := x ! n, n := x ! m])"
        using n(2) m(2) first second by (simp add: swap_items_def)
      then show ?thesis
        using mset_swap [OF n(1) m(1)] by simp
    qed
  qed
qed

lemma swap_items_in_range:
  assumes "i < length x" "j < length x"
  shows "swap_items x (int i) (int j) = (None, x[i := x ! j, j := x ! i])"
  using assms by (simp add: swap_items_def list_getitem_def list_setitem_def Let_def)

lemma shuffle_loop_mset:
  "shuffle_loop rb indices x s = Some (e, y, s') \<Longrightarrow> mset y = mset x"
proof (induction indices arbitrary: x s)
  case Nil
  then show ?case by simp
next
  case (Cons i indices)
  from Cons.prems obtain r t where rb: "rb (i + 1) s = Some (r, t)"
    and rest: "(case r of
            Inl e \<Rightarrow> Some (Some e, x, t)
          | Inr j \<Rightarrow>
             (case swap_items x i j of
                (Some e, x') \<Rightarrow> Some (Some e, x', t)
              | (None, x') \<Rightarrow> shuffle_loop rb indices x' t)) = Some (e, y, s')"
    by (auto simp: bind_eq_Some_conv)
  show ?case
  proof (cases r)
    case (Inl err)
    then show ?thesis using rest by simp
  next
    case (Inr j)
    obtain e' x' where sw: "swap_items x i j = (e', x')"
      by (cases "swap_items x i j")
    have perm: "mset x' = mset x"
      using swap_items_mset [of x i j] sw by simp
    show ?thesis
    proof (cases e')
      case None
      then have "shuffle_loop rb indices x' t = Some (e, y, s')"
        using rest Inr sw by simp
      from Cons.IH [OF this] show ?thesis using perm by simp
    next
      case (Some err)
      then show ?thesis using rest Inr sw perm by simp
    qed
  qed
qed

lemma shuffle_loop_returns:
  "(\<forall>u t. rb u t \<noteq> None) \<Longrightarrow> shuffle_loop rb indices x s \<noteq> None"
proof (induction indices arbitrary: x s)
  case Nil
  then show ?case by simp
next
  case (Cons i indices)
  from Cons.prems obtain r t where rb: "rb (i + 1) s = Some (r, t)"
    by (metis option.exhaust surj_pair)
  show ?case
  proof (cases r)
    case (Inl err)
    then show ?thesis using rb by simp
  next
    case (Inr j)
    obtain e' x' where sw: "swap_items x i j = (e', x')"
      by (cases "swap_items x i j")
    show ?thesis
    proof (cases e')
      case None
      then show ?thesis using rb Inr sw Cons.IH [OF Cons.prems, of x' t] by simp
    next
      case (Some err)
      then show ?thesis using rb Inr sw by simp
    qed
  qed
qed

lemma countdown_Suc:
  "map (\<lambda>i. int (Suc n) - int i) [0..<Suc n] = int (Suc n) # map (\<lambda>i. int n - int i) [0..<n]"
proof -
  have "[0..<Suc n] = 0 # map Suc [0..<n]"
    by (simp add: upt_conv_Cons map_Suc_upt del: upt_Suc)
  then show ?thesis
    by (simp add: comp_def del: upt_Suc)
qed

lemma py_range_countdown:
  assumes "2 \<le> length x"
  shows "py_range (int (length x) - 1) 0 (- 1)
     = map (\<lambda>i. int (length x - 1) - int i) [0..<length x - 1]"
proof -
  have rl: "range_len (int (length x) - 1) 0 (- 1) = int (length x) - 1"
    using assms by (simp add: range_len_def)
  have n: "nat (int (length x) - 1) = length x - 1"
    by simp
  have "int (length x - 1) = int (length x) - 1"
    using assms by (simp add: of_nat_diff)
  then have f: "(\<lambda>i. int (length x) - 1 + int i * (- 1)) = (\<lambda>i. int (length x - 1) - int i)"
    by (intro ext) (simp only: mult_minus_right mult_1_right diff_conv_add_uminus)
  show ?thesis
    unfolding py_range_def rl n f ..
qed

lemma shuffle_loop_fisher_yates:
  "n < length x \<Longrightarrow>
   shuffle_loop randbelow (map (\<lambda>i. int n - int i) [0..<n]) x s = fisher_yates n x s"
proof (induction n arbitrary: x s)
  case 0
  then show ?case by simp
next
  case (Suc n)
  show ?case
  proof (cases "randbelow (int (Suc n) + 1) s")
    case None
    then show ?thesis
      unfolding countdown_Suc by simp
  next
    case (Some p)
    obtain r t where p: "p = (r, t)" by (cases p)
    have "0 < int (Suc n) + 1" by simp
    from randbelow_in_range [OF this Some [unfolded p]]
    obtain v where v: "r = Inr v" "0 \<le> v" "v < int (Suc n) + 1"
      by blast
    define j where "j = nat v"
    have vj: "v = int j" and jl: "j < length x"
      using v(2,3) Suc.prems by (simp_all add: j_def)
    have sw: "swap_items x (int (Suc n)) (int j) = (None, x[Suc n := x ! j, j := x ! Suc n])"
      using Suc.prems jl by (rule swap_items_in_range)
    have len: "n < length (x[Suc n := x ! j, j := x ! Suc n])"
      using Suc.prems by simp
    have "shuffle_loop randbelow (map (\<lambda>i. int (Suc n) - int i) [0..<Suc n]) x s
        = shuffle_loop randbelow (map (\<lambda>i. int n - int i) [0..<n]) (x[Suc n := x ! j, j := x ! Suc n]) t"
      unfolding countdown_Suc using Some p v(1) vj sw by simp
    also have "\<dots> = fisher_yates n (x[Suc n := x ! j, j := x ! Suc n]) t"
      using len by (rule Suc.IH)
    also have "\<dots> = fisher_yates (Suc n) x s"
      using Some p v(1) vj by simp
    finally show ?thesis .
  qed
qed

lemma fisher_yates_no_error:
  "fisher_yates n x s = Some (e, y, s') \<Longrightarrow> e = None \<and> length y = length x"
proof (induction n arbitrary: x s)
  case 0
  then show ?case by simp
next
  case (Suc n)
  from Suc.prems obtain r t where rb: "randbelow (int (Suc n) + 1) s = Some (r, t)"
    and rest: "(case r of Inl e \<Rightarrow> Some (Some e, x, t)
                | Inr j \<Rightarrow> fisher_yates n (x[Suc n := x ! nat j, nat j := x ! Suc n]) t)
               = Some (e, y, s')"
    by (auto simp: bind_eq_Some_conv)
  have "0 < int (Suc n) + 1" by simp
  from randbelow_in_range [OF this rb] obtain v where v: "r = Inr v"
    by blast
  then have "fisher_yates n (x[Suc n := x ! nat v, nat v := x ! Suc n]) t = Some (e, y, s')"
    using rest by simp
  from Suc.IH [OF this] show ?case by simp
qed

lemma shuffle_fisher_yates:
  "2 \<le> length x \<Longrightarrow> shuffle x s = fisher_yates (length x - 1) x s"
proof -
  assume a: "2 \<le> length x"
  then have "length x - 1 < length x" by simp
  from shuffle_loop_fisher_yates [OF this, of s] show ?thesis
    using a by (simp add: shuffle_def shuffle_with_def py_range_countdown)
qed

lemma example_randbelow_3:
  "randbelow 3 (example_rng\<lparr>consumed := 64\<rparr>) = Some (Inr 0, example_rng)"
proof -
  have d0: "randbits 2 (example_rng\<lparr>consumed := 64\<rparr>) = Some (0, example_rng)"
    by (simp add: randbits_one_byte example_rng_def)
  have "randbelow_loop 3 2 (example_rng\<lparr>consumed := 64\<rparr>) = Some (0, example_rng)"
    by (subst randbelow_loop.simps, simp add: d0)
  moreover have "bit_length 3 = 2"
    by (simp add: bit_length.simps)
  ultimately show ?thesis
    by (simp add: randbelow_def)
qed

lemma example_randbelow_2:
  "randbelow 2 example_rng = Some (Inr 1, example_rng\<lparr>consumed := 320\<rparr>)"
proof -
  have d0: "randbits 2 example_rng = Some (3, example_rng\<lparr>consumed := 192\<rparr>)"
    by (simp add: randbits_one_byte example_rng_def)
  have d1: "randbits 2 (example_rng\<lparr>consumed := 192\<rparr>) = Some (2, example_rng\<lparr>consumed := 256\<rparr>)"
    by (simp add: randbits_one_byte example_rng_def)
  have d2: "randbits 2 (example_rng\<lparr>consumed := 256\<rparr>) = Some (1, example_rng\<lparr>consumed := 320\<rparr>)"
    by (simp add: randbits_one_byte example_rng_def)
  have "randbelow_loop 2 2 example_rng = Some (1, example_rng\<lparr>consumed := 320\<rparr>)"
    apply (subst randbelow_loop.simps, simp add: d0)
    apply (subst randbelow_loop.simps, simp add: d1)
    apply (subst randbelow_loop.simps, simp add: d2)
    done
  moreover have "bit_length 2 = 2"
    by (simp add: bit_length.simps)
  ultimately show ?thesis
    by (simp add: randbelow_def)
qed

lemma example_shuffle:
  "shuffle [1, 2, 3 :: int] (example_rng\<lparr>consumed := 64\<rparr>)
     = Some (None, [3, 2, 1], example_rng\<lparr>consumed := 320\<rparr>)"
proof -
  have "range_len 2 0 (- 1) = 2"
    by (simp add: range_len_def)
  then have r: "py_range (int (length [1, 2, 3 :: int]) - 1) 0 (- 1) = [2, 1]"
    by (simp add: py_range_def numeral_2_eq_2)
  have s1: "swap_items [1, 2, 3 :: int] 2 0 = (None, [3, 2, 1])"
    by (simp add: swap_items_def list_getitem_def list_setitem_def)
  have s2: "swap_items [3, 2, 1 :: int] 1 1 = (None, [3, 2, 1])"
    by (simp add: swap_items_def list_getitem_def list_setitem_def)
  have "shuffle_loop randbelow [2, 1] [1, 2, 3 :: int] (example_rng\<lparr>consumed := 64\<rparr>)
     = Some (None, [3, 2, 1], example_rng\<lparr>consumed := 320\<rparr>)"
    by (simp add: example_randbelow_3 example_randbelow_2 s1 s2)
  then show ?thesis
    unfolding shuffle_def shuffle_with_def r by simp
qed

subsection \<open>Construction\<close>

text \<open>
  A generator that exists has 64 server bytes, and the three malformed seeds of the
  specification, for an object with a string in the field, raise \<^verbatim>\<open>RuntimeError\<close>.
\<close>

lemma fetch_seed_length:
  "fetch_seed net = Inr sb \<Longrightarrow> length sb = 64"
  by (auto simp: fetch_seed_def split: sum.splits if_splits body.splits json.splits option.splits)

lemma CFRand_init_invariant:
  "CFRand_init url env_url net tp pos = Inr g \<Longrightarrow> length (server_bytes g) = 64"
  by (auto simp: CFRand_init_def Let_def dest: fetch_seed_length split: sum.splits if_splits)

lemma fetch_seed_bad_strings:
  assumes "status resp = 200" "body resp = Parsed (JObject members)"
  shows "map_of (rev members) ''hash_sha3_512'' = None
           \<Longrightarrow> fetch_seed (Inr resp) = Inl (RuntimeError ''Worker response missing hash_sha3_512'')"
    and "map_of (rev members) ''hash_sha3_512'' = Some (JString h) \<Longrightarrow> h \<noteq> [] \<Longrightarrow> fromhex h = None
           \<Longrightarrow> fetch_seed (Inr resp) = Inl (RuntimeError ''Worker hash is not valid hex'')"
    and "map_of (rev members) ''hash_sha3_512'' = Some (JString h) \<Longrightarrow> h \<noteq> [] \<Longrightarrow> fromhex h = Some bs
           \<Longrightarrow> length bs \<noteq> 64
           \<Longrightarrow> fetch_seed (Inr resp) = Inl (RuntimeError ''Worker hash is not 512 bits'')"
  using assms by (simp_all add: fetch_seed_def)

lemma fromhex_aa: "fromhex (concat (replicate n ''aa'')) = Some (replicate n 0xAA)"
  by (induction n) (simp_all add: hex_digit_def is_space_def)

lemma example_short_digest:
  "fetch_seed (Inr \<lparr>status = 200,
       body = Parsed (JObject [(''hash_sha3_512'', JString (concat (replicate 63 ''aa'')))])\<rparr>)
     = Inl (RuntimeError ''Worker hash is not 512 bits'')"
  by (simp add: fetch_seed_def fromhex_aa)

lemma example_good_digest:
  "fetch_seed (Inr \<lparr>status = 200,
       body = Parsed (JObject [(''hash_sha3_512'', JString (concat (replicate 64 ''aa'')))])\<rparr>)
     = Inr (replicate 64 0xAA)"
  by (simp add: fetch_seed_def fromhex_aa)

lemma example_status:
  "fetch_seed (Inr \<lparr>status = 404, body = Malformed\<rparr>)
     = Inl (RuntimeError ''Worker responded with status 404'')"
  by (simp add: fetch_seed_def str_int_def decimal.simps)

section \<open>The claims\<close>

text \<open>
  C1, as amended. For every \<open>upper > 0\<close>, \<^verbatim>\<open>_randbelow(upper)\<close> draws its candidates
  with \<^verbatim>\<open>_randbits(bit_size)\<close>, where \<open>bit_size\<close> is the bit length of \<open>upper\<close>: the
  smallest \<open>b\<close> such that \<open>upper < 2 ^ b\<close> (strictly). It returns the first candidate
  strictly below \<open>upper\<close>, with the state that draw leaves, and whatever it returns is
  such a first candidate.
\<close>

theorem randbelow_first_accepted:
  assumes "0 < upper"
  shows "upper < 2 ^ bit_length upper
     \<and> (\<forall>b. upper < 2 ^ b \<longrightarrow> bit_length upper \<le> b)
     \<and> (\<forall>n c s'. nth_draw (int (bit_length upper)) n s = Some (c, s') \<and> c < upper
            \<and> (\<forall>m<n. \<forall>c' t. nth_draw (int (bit_length upper)) m s = Some (c', t) \<longrightarrow> \<not> c' < upper)
          \<longrightarrow> randbelow upper s = Some (Inr c, s'))
     \<and> (\<forall>r s'. randbelow upper s = Some (r, s')
          \<longrightarrow> (\<exists>n c. r = Inr c \<and> nth_draw (int (bit_length upper)) n s = Some (c, s') \<and> c < upper
                 \<and> (\<forall>m<n. \<forall>c' t. nth_draw (int (bit_length upper)) m s = Some (c', t) \<longrightarrow> \<not> c' < upper)))"
proof (intro conjI allI impI)
  show "upper < 2 ^ bit_length upper"
    using bit_length_bounds [OF assms] by simp
next
  fix b assume "upper < 2 ^ b"
  then show "bit_length upper \<le> b"
    using assms by (simp add: bit_length_least)
next
  fix n c s'
  assume a: "nth_draw (int (bit_length upper)) n s = Some (c, s') \<and> c < upper
     \<and> (\<forall>m<n. \<forall>c' t. nth_draw (int (bit_length upper)) m s = Some (c', t) \<longrightarrow> \<not> c' < upper)"
  then have "randbelow_loop upper (int (bit_length upper)) s = Some (c, s')"
    using randbelow_loop_first_accepted [of "int (bit_length upper)" n s c s' upper] by blast
  then show "randbelow upper s = Some (Inr c, s')"
    using assms by (simp add: randbelow_positive)
next
  fix r s'
  assume "randbelow upper s = Some (r, s')"
  then obtain c where r: "r = Inr c"
    and loop: "randbelow_loop upper (int (bit_length upper)) s = Some (c, s')"
    using assms by (auto simp: randbelow_positive)
  from randbelow_loop_sound [OF loop] r
  show "\<exists>n c. r = Inr c \<and> nth_draw (int (bit_length upper)) n s = Some (c, s') \<and> c < upper
      \<and> (\<forall>m<n. \<forall>c' t. nth_draw (int (bit_length upper)) m s = Some (c', t) \<longrightarrow> \<not> c' < upper)"
    by auto
qed

text \<open>
  The amended C1 at \<open>upper = 4\<close> on the example generator: the 3-bit candidates are
  6, 4, 2, and the call returns 2 after three draws.
\<close>

theorem randbelow_first_accepted_witness:
  "(0::int) < 4 \<and> bit_length 4 = 3
   \<and> nth_draw 3 0 example_rng = Some (6, example_rng\<lparr>consumed := 192\<rparr>)
   \<and> nth_draw 3 (Suc 0) example_rng = Some (4, example_rng\<lparr>consumed := 256\<rparr>)
   \<and> nth_draw 3 (Suc (Suc 0)) example_rng = Some (2, example_rng\<lparr>consumed := 320\<rparr>)
   \<and> randbelow 4 example_rng = Some (Inr 2, example_rng\<lparr>consumed := 320\<rparr>)"
proof -
  have pos: "(0::int) < 4" by simp
  note th = randbelow_first_accepted [OF pos, of example_rng]
  have k: "int (bit_length 4) = 3" by (simp add: bit_length_4)
  from th have "\<forall>n c s'. nth_draw 3 n example_rng = Some (c, s') \<and> c < 4
            \<and> (\<forall>m<n. \<forall>c' t. nth_draw 3 m example_rng = Some (c', t) \<longrightarrow> \<not> c' < 4)
          \<longrightarrow> randbelow 4 example_rng = Some (Inr c, s')"
    unfolding k by (rule conjunct1 [OF conjunct2 [OF conjunct2]])
  then have "nth_draw 3 (Suc (Suc 0)) example_rng = Some (2, example_rng\<lparr>consumed := 320\<rparr>) \<and> (2::int) < 4
            \<and> (\<forall>m<Suc (Suc 0). \<forall>c' t. nth_draw 3 m example_rng = Some (c', t) \<longrightarrow> \<not> c' < 4)
          \<longrightarrow> randbelow 4 example_rng = Some (Inr 2, example_rng\<lparr>consumed := 320\<rparr>)"
    by blast
  then have "randbelow 4 example_rng = Some (Inr 2, example_rng\<lparr>consumed := 320\<rparr>)"
    using example_draws(3) example_rejected by simp
  then show ?thesis
    using example_draws bit_length_4 by simp
qed

text \<open>
  C1 as stated fails at \<open>upper = 4\<close>: the smallest \<open>b\<close> with \<open>4 \<le> 2 ^ b\<close> is 2, and
  the first 2-bit candidate of the example generator, 3, is below 4; the code draws
  3-bit candidates and returns 2 after three draws.
\<close>

theorem randbelow_bit_size_counterexample:
  "bit_length 4 = 3 \<and> \<not> (4::int) \<le> 2 ^ 1 \<and> (4::int) \<le> 2 ^ 2
   \<and> nth_draw 2 0 example_rng = Some (3, example_rng\<lparr>consumed := 192\<rparr>) \<and> (3::int) < 4
   \<and> randbelow 4 example_rng = Some (Inr 2, example_rng\<lparr>consumed := 320\<rparr>)"
proof -
  have "nth_draw 2 0 example_rng = Some (3, example_rng\<lparr>consumed := 192\<rparr>)"
    by (simp add: randbits_one_byte example_rng_def)
  then show ?thesis
    using example_randbelow_4 bit_length_4 by simp
qed

text \<open>
  C2. For every \<open>k \<ge> 1\<close>, on a generator that has server bytes (every constructed one
  has 64), \<^verbatim>\<open>_randbits(k)\<close> returns: it obtains \<open>\<lceil>k / 8\<rceil>\<close> random bytes, reads them as
  a big-endian unsigned integer, shifts that integer right by \<open>\<lceil>k / 8\<rceil> * 8 - k\<close> bits,
  and the result lies in \<open>[0, 2 ^ k - 1]\<close>.
\<close>

theorem randbits_spec:
  assumes "1 \<le> k" and "server_bytes s \<noteq> []"
  shows "\<exists>data s'. random_bytes \<lceil>real_of_int k / 8\<rceil> s = Some (data, s')
      \<and> int (length data) = \<lceil>real_of_int k / 8\<rceil>
      \<and> from_bytes_big data = (\<Sum>i<length data. uint (data ! i) * 256 ^ (length data - 1 - i))
      \<and> randbits k s
          = Some (drop_bit (nat (\<lceil>real_of_int k / 8\<rceil> * 8 - k)) (from_bytes_big data), s')
      \<and> 0 \<le> drop_bit (nat (\<lceil>real_of_int k / 8\<rceil> * 8 - k)) (from_bytes_big data)
      \<and> drop_bit (nat (\<lceil>real_of_int k / 8\<rceil> * 8 - k)) (from_bytes_big data) \<le> 2 ^ nat k - 1"
proof -
  have c: "\<lceil>real_of_int k / 8\<rceil> = (k + 7) div 8"
    by (simp add: ceil_div8)
  from randbits_data [OF assms] obtain data s' where
    "random_bytes ((k + 7) div 8) s = Some (data, s')"
    "int (length data) = (k + 7) div 8"
    "randbits k s = Some (from_bytes_big data div 2 ^ nat (((k + 7) div 8) * 8 - k), s')"
    "0 \<le> from_bytes_big data div 2 ^ nat (((k + 7) div 8) * 8 - k)"
    "from_bytes_big data div 2 ^ nat (((k + 7) div 8) * 8 - k) < 2 ^ nat k"
    by blast
  then show ?thesis
    unfolding c drop_bit_eq_div using from_bytes_big_sum [of data] by auto
qed

text \<open>C2 at \<open>k = 3\<close> on the example generator.\<close>

theorem randbits_spec_witness:
  "(1::int) \<le> 3 \<and> server_bytes example_rng \<noteq> []
   \<and> (\<exists>v s'. randbits 3 example_rng = Some (v, s') \<and> 0 \<le> v \<and> v \<le> 7)"
  using randbits_spec [of 3 example_rng] by (auto simp: example_rng_def)

text \<open>
  C3. For \<open>upper \<le> 0\<close>, \<^verbatim>\<open>_randbelow(upper)\<close> raises
  \<^verbatim>\<open>ValueError("upper must be positive")\<close> and the state is unchanged, so no entropy
  was drawn. For \<open>upper > 0\<close>, whatever it returns is a value in \<open>[0, upper)\<close>, never an
  error, and it does return as soon as some draw is below \<open>upper\<close> (the loop is
  unbounded: on a tape with no such draw it runs forever).
\<close>

theorem randbelow_range:
  "(upper \<le> 0 \<longrightarrow> randbelow upper s = Some (Inl (ValueError ''upper must be positive''), s))
   \<and> (0 < upper \<longrightarrow>
        (\<forall>r s'. randbelow upper s = Some (r, s') \<longrightarrow> (\<exists>v. r = Inr v \<and> 0 \<le> v \<and> v < upper))
      \<and> ((\<exists>n c t. nth_draw (int (bit_length upper)) n s = Some (c, t) \<and> c < upper)
           \<longrightarrow> (\<exists>v s'. randbelow upper s = Some (Inr v, s'))))"
proof (intro conjI impI allI)
  assume "upper \<le> 0"
  then show "randbelow upper s = Some (Inl (ValueError ''upper must be positive''), s)"
    by (simp add: randbelow_def)
next
  fix r s'
  assume pos: "0 < upper" and ret: "randbelow upper s = Some (r, s')"
  then obtain c where r: "r = Inr c"
    and loop: "randbelow_loop upper (int (bit_length upper)) s = Some (c, s')"
    by (auto simp: randbelow_positive)
  from randbelow_loop_sound [OF loop] obtain n where
    "nth_draw (int (bit_length upper)) n s = Some (c, s')" "c < upper"
    by auto
  then show "\<exists>v. r = Inr v \<and> 0 \<le> v \<and> v < upper"
    using r nth_draw_nonneg by blast
next
  assume pos: "0 < upper"
    and "\<exists>n c t. nth_draw (int (bit_length upper)) n s = Some (c, t) \<and> c < upper"
  then obtain n c t where "nth_draw (int (bit_length upper)) n s = Some (c, t)" "c < upper"
    by blast
  from first_accepted_exists [OF this] obtain n' c' t' where
    "nth_draw (int (bit_length upper)) n' s = Some (c', t')" "c' < upper"
    "\<forall>m<n'. \<forall>c'' t''. nth_draw (int (bit_length upper)) m s = Some (c'', t'') \<longrightarrow> \<not> c'' < upper"
    by blast
  then have "randbelow_loop upper (int (bit_length upper)) s = Some (c', t')"
    by (rule randbelow_loop_first_accepted)
  then show "\<exists>v s'. randbelow upper s = Some (Inr v, s')"
    using pos by (simp add: randbelow_positive)
qed

text \<open>C3 at \<open>upper = 0\<close> and \<open>upper = 4\<close> on the example generator.\<close>

theorem randbelow_range_witness:
  "(0::int) \<le> 0
   \<and> randbelow 0 example_rng = Some (Inl (ValueError ''upper must be positive''), example_rng)
   \<and> (0::int) < 4
   \<and> (\<exists>n c t. nth_draw (int (bit_length 4)) n example_rng = Some (c, t) \<and> c < 4)
   \<and> (\<exists>v s'. randbelow 4 example_rng = Some (Inr v, s') \<and> 0 \<le> v \<and> v < 4)"
proof -
  have "nth_draw (int (bit_length 4)) (Suc (Suc 0)) example_rng
          = Some (2, example_rng\<lparr>consumed := 320\<rparr>) \<and> (2::int) < 4"
    using example_draws(3) by (simp add: bit_length_4)
  then have ex: "\<exists>n c t. nth_draw (int (bit_length 4)) n example_rng = Some (c, t) \<and> c < 4"
    by blast
  have neg: "randbelow 0 example_rng = Some (Inl (ValueError ''upper must be positive''), example_rng)"
    using randbelow_range [of 0 example_rng] by simp
  have p: "(0::int) < 4" by simp
  have pos: "(\<forall>r s'. randbelow 4 example_rng = Some (r, s') \<longrightarrow> (\<exists>v. r = Inr v \<and> 0 \<le> v \<and> v < 4))
      \<and> ((\<exists>n c t. nth_draw (int (bit_length 4)) n example_rng = Some (c, t) \<and> c < 4)
           \<longrightarrow> (\<exists>v s'. randbelow 4 example_rng = Some (Inr v, s')))"
    using randbelow_range [of 4 example_rng] p by blast
  from pos ex obtain v s' where ret: "randbelow 4 example_rng = Some (Inr v, s')"
    by blast
  with pos have "0 \<le> v \<and> v < 4"
    by blast
  with ret have "\<exists>v s'. randbelow 4 example_rng = Some (Inr v, s') \<and> 0 \<le> v \<and> v < 4"
    by blast
  with neg ex show ?thesis
    by simp
qed

text \<open>
  C4. \<^verbatim>\<open>random()\<close> is \<^verbatim>\<open>_randbits(53)\<close> divided by \<open>2 ^ 53\<close>; on a generator that has
  server bytes it returns, and its value lies in \<open>[0, 1)\<close>: it is at most
  \<open>1 - 2 ^ -53\<close>. The quotient is a binary64 value, so the division of the source does
  not round and cannot reach 1.0.
\<close>

theorem random_unit_interval:
  assumes "server_bytes s \<noteq> []"
  shows "\<exists>v s'. randbits 53 s = Some (v, s')
      \<and> random s = Some (real_of_int v / 2 ^ 53, s')
      \<and> 0 \<le> real_of_int v / 2 ^ 53
      \<and> real_of_int v / 2 ^ 53 \<le> 1 - 1 / 2 ^ 53
      \<and> real_of_int v / 2 ^ 53 < 1
      \<and> is_binary64 (real_of_int v / 2 ^ 53)"
proof -
  have k: "(1::int) \<le> 53" by simp
  from randbits_data [OF k assms] obtain v s' where
    rb: "randbits 53 s = Some (v, s')" and lo: "0 \<le> v" and up: "v < 2 ^ nat 53"
    by blast
  have up': "v < 2 ^ 53" using up by simp
  have "real_of_int v < real_of_int (2 ^ 53)"
    using up' by (simp only: of_int_less_iff)
  then have lt: "real_of_int v < 2 ^ 53"
    by simp
  have "v \<le> 2 ^ 53 - 1" using up' by simp
  then have "real_of_int v \<le> real_of_int (2 ^ 53 - 1)"
    by (simp only: of_int_le_iff)
  then have le: "real_of_int v \<le> 2 ^ 53 - 1"
    by simp
  have r0: "0 \<le> real_of_int v / 2 ^ 53" using lo by simp
  have "real_of_int v / 2 ^ 53 \<le> (2 ^ 53 - 1) / 2 ^ 53"
    using le by (rule divide_right_mono) simp
  also have "((2::real) ^ 53 - 1) / 2 ^ 53 = 1 - 1 / 2 ^ 53"
    by (simp add: diff_divide_distrib)
  finally have r1: "real_of_int v / 2 ^ 53 \<le> 1 - 1 / 2 ^ 53" .
  have r2: "real_of_int v / 2 ^ 53 < 1"
    using lt by simp
  have "\<bar>v\<bar> < 2 ^ 53 \<and> (53::nat) \<le> 1074 \<and> real_of_int v / 2 ^ 53 = real_of_int v / 2 ^ 53"
    using lo up' by simp
  then have b: "is_binary64 (real_of_int v / 2 ^ 53)"
    unfolding is_binary64_def by blast
  have "random s = Some (real_of_int v / 2 ^ 53, s')"
    using rb by (simp add: random_def)
  then show ?thesis
    using rb r0 r1 r2 b by blast
qed

text \<open>C4 on the example generator.\<close>

theorem random_unit_interval_witness:
  "server_bytes example_rng \<noteq> []
   \<and> (\<exists>r s'. random example_rng = Some (r, s') \<and> 0 \<le> r \<and> r < 1)"
proof -
  have ne: "server_bytes example_rng \<noteq> []"
    by (simp add: example_rng_def)
  from random_unit_interval [OF ne] show ?thesis
    using ne by blast
qed




text \<open>
  C6. \<^verbatim>\<open>choice\<close> raises \<^verbatim>\<open>IndexError\<close> on an empty sequence, drawing nothing; on a
  non-empty one it returns exactly when \<^verbatim>\<open>_randbelow(len(seq))\<close> does, and then the
  element at the index drawn, which is in range. \<^verbatim>\<open>choice([a])\<close> returns nothing but
  \<open>a\<close>.
\<close>

theorem choice_spec:
  "(xs = [] \<longrightarrow> choice xs s = Some (Inl (IndexError ''Cannot choose from an empty sequence''), s))
   \<and> (xs \<noteq> [] \<longrightarrow>
        (randbelow (int (length xs)) s = None \<longrightarrow> choice xs s = None)
      \<and> (\<forall>r s'. randbelow (int (length xs)) s = Some (r, s') \<longrightarrow>
            (\<exists>i. r = Inr (int i) \<and> i < length xs \<and> choice xs s = Some (Inr (xs ! i), s'))))
   \<and> (\<forall>r s'. choice [a] s = Some (r, s') \<longrightarrow> r = Inr a)"
proof (intro conjI impI allI)
  assume "xs = []"
  then show "choice xs s = Some (Inl (IndexError ''Cannot choose from an empty sequence''), s)"
    by (simp add: choice_def)
next
  assume "xs \<noteq> []" "randbelow (int (length xs)) s = None"
  then show "choice xs s = None"
    by (simp add: choice_def)
next
  fix r s'
  assume ne: "xs \<noteq> []" and rb: "randbelow (int (length xs)) s = Some (r, s')"
  have "0 < int (length xs)" using ne by simp
  from randbelow_in_range [OF this rb] obtain v where v: "r = Inr v" "0 \<le> v" "v < int (length xs)"
    by blast
  define i where "i = nat v"
  have vi: "v = int i" using v(2) by (simp add: i_def)
  have il: "i < length xs" using v(3) vi by simp
  have rb': "randbelow (int (length xs)) s = Some (Inr (int i), s')"
    using rb v(1) vi by simp
  have "choice xs s = Some (list_getitem xs (int i), s')"
    using ne rb' by (simp add: choice_def)
  then have "choice xs s = Some (Inr (xs ! i), s')"
    using il by (simp only: list_getitem_in_range)
  then show "\<exists>i. r = Inr (int i) \<and> i < length xs \<and> choice xs s = Some (Inr (xs ! i), s')"
    using v(1) vi il by blast
next
  fix r s'
  assume c: "choice [a] s = Some (r, s')"
  then obtain r0 t where rb: "randbelow 1 s = Some (r0, t)"
    and rest: "(case r0 of Inl e \<Rightarrow> Some (Inl e, t)
                | Inr index \<Rightarrow> Some (list_getitem [a] index, t)) = Some (r, s')"
    by (auto simp: choice_def bind_eq_Some_conv)
  have "(0::int) < 1" by simp
  from randbelow_in_range [OF this rb] have "r0 = Inr 0"
    by auto
  then show "r = Inr a"
    using rest by (simp add: list_getitem_def)
qed

text \<open>C6 on the example generator: the empty list, and a list of four.\<close>

theorem choice_spec_witness:
  "choice ([] :: string list) example_rng
      = Some (Inl (IndexError ''Cannot choose from an empty sequence''), example_rng)
   \<and> [''a'', ''b'', ''c'', ''d''] \<noteq> []
   \<and> randbelow (int (length [''a'', ''b'', ''c'', ''d''])) example_rng
        = Some (Inr 2, example_rng\<lparr>consumed := 320\<rparr>)
   \<and> choice [''a'', ''b'', ''c'', ''d''] example_rng = Some (Inr ''c'', example_rng\<lparr>consumed := 320\<rparr>)"
proof -
  note th0 = choice_spec [of "[] :: string list" example_rng "''a''"]
  note th = choice_spec [of "[''a'', ''b'', ''c'', ''d'']" example_rng "''a''"]
  have e: "choice ([] :: string list) example_rng
      = Some (Inl (IndexError ''Cannot choose from an empty sequence''), example_rng)"
    using th0 by simp
  have rb: "randbelow (int (length [''a'', ''b'', ''c'', ''d''])) example_rng
        = Some (Inr 2, example_rng\<lparr>consumed := 320\<rparr>)"
    using example_randbelow_4 by simp
  from th have "\<forall>r s'. randbelow (int (length [''a'', ''b'', ''c'', ''d''])) example_rng = Some (r, s') \<longrightarrow>
            (\<exists>i. r = Inr (int i) \<and> i < length [''a'', ''b'', ''c'', ''d'']
               \<and> choice [''a'', ''b'', ''c'', ''d''] example_rng
                    = Some (Inr ([''a'', ''b'', ''c'', ''d''] ! i), s'))"
    by blast
  with rb obtain i where i: "(Inr 2 :: error + int) = Inr (int i)"
    "choice [''a'', ''b'', ''c'', ''d''] example_rng
        = Some (Inr ([''a'', ''b'', ''c'', ''d''] ! i), example_rng\<lparr>consumed := 320\<rparr>)"
    by blast
  from i(1) have "i = 2" by simp
  with i(2) have "choice [''a'', ''b'', ''c'', ''d''] example_rng
      = Some (Inr ''c'', example_rng\<lparr>consumed := 320\<rparr>)"
    by simp
  with e rb show ?thesis by simp
qed

text \<open>
  C7. \<^verbatim>\<open>shuffle\<close> on a list of fewer than two elements leaves the list and the state
  as they are (no entropy is drawn). On a longer list it is Fisher--Yates: \<open>i\<close> runs
  from \<open>len - 1\<close> down to \<open>1\<close>, each step draws \<open>j = _randbelow(i + 1)\<close> and swaps the
  elements at \<open>i\<close> and \<open>j\<close>; no step raises, and the length is kept.
\<close>

theorem shuffle_is_fisher_yates:
  "(length x < 2 \<longrightarrow> shuffle x s = Some (None, x, s))
   \<and> (2 \<le> length x \<longrightarrow> shuffle x s = fisher_yates (length x - 1) x s)
   \<and> (\<forall>e y s'. shuffle x s = Some (e, y, s') \<longrightarrow> e = None \<and> length y = length x)"
proof (intro conjI impI allI)
  assume "length x < 2"
  then show "shuffle x s = Some (None, x, s)"
    by (simp add: shuffle_def shuffle_with_def)
next
  assume "2 \<le> length x"
  then show "shuffle x s = fisher_yates (length x - 1) x s"
    by (rule shuffle_fisher_yates)
next
  fix e y s'
  assume a: "shuffle x s = Some (e, y, s')"
  show "e = None"
  proof (cases "length x < 2")
    case True
    then show ?thesis using a by (simp add: shuffle_def shuffle_with_def)
  next
    case False
    then have "fisher_yates (length x - 1) x s = Some (e, y, s')"
      using a shuffle_fisher_yates [of x s] by simp
    then show ?thesis using fisher_yates_no_error by blast
  qed
next
  fix e y s'
  assume a: "shuffle x s = Some (e, y, s')"
  show "length y = length x"
  proof (cases "length x < 2")
    case True
    then show ?thesis using a by (simp add: shuffle_def shuffle_with_def)
  next
    case False
    then have "fisher_yates (length x - 1) x s = Some (e, y, s')"
      using a shuffle_fisher_yates [of x s] by simp
    then show ?thesis using fisher_yates_no_error by blast
  qed
qed

text \<open>
  C7 on the empty list, and on \<open>[1, 2, 3]\<close> with 64 bytes of the example tape consumed:
  \<open>j = 0\<close> for \<open>i = 2\<close>, then \<open>j = 1\<close> for \<open>i = 1\<close>.
\<close>

theorem shuffle_is_fisher_yates_witness:
  "length ([] :: int list) < 2
   \<and> shuffle ([] :: int list) example_rng = Some (None, [], example_rng)
   \<and> 2 \<le> length [1, 2, 3 :: int]
   \<and> shuffle [1, 2, 3 :: int] (example_rng\<lparr>consumed := 64\<rparr>)
        = fisher_yates (Suc (Suc 0)) [1, 2, 3] (example_rng\<lparr>consumed := 64\<rparr>)
   \<and> fisher_yates (Suc (Suc 0)) [1, 2, 3 :: int] (example_rng\<lparr>consumed := 64\<rparr>)
        = Some (None, [3, 2, 1], example_rng\<lparr>consumed := 320\<rparr>)"
proof -
  note th0 = shuffle_is_fisher_yates [of "[] :: int list" example_rng]
  note th = shuffle_is_fisher_yates [of "[1, 2, 3 :: int]" "example_rng\<lparr>consumed := 64\<rparr>"]
  have e: "shuffle ([] :: int list) example_rng = Some (None, [], example_rng)"
    using th0 by simp
  have l: "2 \<le> length [1, 2, 3 :: int]"
    by simp
  from th l have "shuffle [1, 2, 3 :: int] (example_rng\<lparr>consumed := 64\<rparr>)
        = fisher_yates (length [1, 2, 3 :: int] - 1) [1, 2, 3] (example_rng\<lparr>consumed := 64\<rparr>)"
    by blast
  moreover have "length [1, 2, 3 :: int] - 1 = Suc (Suc 0)"
    by simp
  ultimately have f: "shuffle [1, 2, 3 :: int] (example_rng\<lparr>consumed := 64\<rparr>)
        = fisher_yates (Suc (Suc 0)) [1, 2, 3] (example_rng\<lparr>consumed := 64\<rparr>)"
    by (simp only:)
  have g: "fisher_yates (Suc (Suc 0)) [1, 2, 3 :: int] (example_rng\<lparr>consumed := 64\<rparr>)
        = Some (None, [3, 2, 1], example_rng\<lparr>consumed := 320\<rparr>)"
    by (simp add: example_randbelow_3 example_randbelow_2)
  show ?thesis
    using e l f g by simp
qed

text \<open>
  C8. Construction does not raise \<^verbatim>\<open>RuntimeError\<close> for every field value that is not
  valid hexadecimal: on the answer \<^verbatim>\<open>{"hash_sha3_512": 123}\<close> with status 200,
  \<^verbatim>\<open>bytes.fromhex\<close> raises \<^verbatim>\<open>TypeError\<close>, which \<^verbatim>\<open>_fetch_seed\<close> does not catch, and
  construction ends with that \<^verbatim>\<open>TypeError\<close>; a string that is not hexadecimal, such as
  \<^verbatim>\<open>"zz"\<close>, gives the \<^verbatim>\<open>RuntimeError\<close> "Worker hash is not valid hex".
\<close>

theorem construction_type_error:
  "fetch_seed (Inr \<lparr>status = 200, body = Parsed (JObject [(''hash_sha3_512'', JNumber 123)])\<rparr>)
     = Inl (TypeError ''fromhex() argument must be str'')
   \<and> CFRand_init (Some ''https://seed.example'') None
        (Inr \<lparr>status = 200, body = Parsed (JObject [(''hash_sha3_512'', JNumber 123)])\<rparr>)
        (tape example_rng) 0
     = Inl (TypeError ''fromhex() argument must be str'')
   \<and> fetch_seed (Inr \<lparr>status = 200, body = Parsed (JObject [(''hash_sha3_512'', JString ''zz'')])\<rparr>)
     = Inl (RuntimeError ''Worker hash is not valid hex'')"
  by (simp add: fetch_seed_def CFRand_init_def hex_digit_def is_space_def)

text \<open>
  C9. Whatever \<^verbatim>\<open>shuffle\<close> leaves in the list is a permutation of what was there. This
  holds for any sampler \<open>rb\<close> in the place of \<^verbatim>\<open>_randbelow\<close>, whatever values it returns
  (also out of range, where the swap raises \<^verbatim>\<open>IndexError\<close> before it stores anything),
  and the loop returns whenever the sampler does.
\<close>

theorem shuffle_permutes:
  "(\<forall>e y s'. shuffle x s = Some (e, y, s') \<longrightarrow> mset y = mset x)
   \<and> (\<forall>e y s'. shuffle_with rb x s = Some (e, y, s') \<longrightarrow> mset y = mset x)
   \<and> ((\<forall>u t. rb u t \<noteq> None) \<longrightarrow> shuffle_with rb x s \<noteq> None)"
proof -
  have w: "mset y = mset x" if "shuffle_with f x s = Some (e, y, s')" for f e y s'
    using that shuffle_loop_mset [of f _ x s e y s']
    by (auto simp: shuffle_with_def split: if_splits)
  have r: "shuffle_with rb x s \<noteq> None" if "\<forall>u t. rb u t \<noteq> None"
    using shuffle_loop_returns [OF that, of "py_range (int (length x) - 1) 0 (- 1)" x s]
    by (simp add: shuffle_with_def)
  show ?thesis
    using w r unfolding shuffle_def by blast
qed

text \<open>
  C9 on \<open>[1, 2, 3]\<close>, shuffled by the example generator, and with a sampler that
  always returns 0.
\<close>

theorem shuffle_permutes_witness:
  "shuffle [1, 2, 3 :: int] (example_rng\<lparr>consumed := 64\<rparr>)
     = Some (None, [3, 2, 1], example_rng\<lparr>consumed := 320\<rparr>)
   \<and> mset [3, 2, 1 :: int] = mset [1, 2, 3]
   \<and> (\<forall>u t. (\<lambda>(u :: int) (t :: rng). Some (Inr (0 :: int) :: error + int, t)) u t \<noteq> None)
   \<and> shuffle_with (\<lambda>u t. Some (Inr 0, t)) [1, 2, 3 :: int] example_rng \<noteq> None"
proof -
  note th = shuffle_permutes [of "[1, 2, 3 :: int]" "example_rng\<lparr>consumed := 64\<rparr>"
      "\<lambda>u t. Some (Inr 0, t)"]
  note th' = shuffle_permutes [of "[1, 2, 3 :: int]" example_rng "\<lambda>u t. Some (Inr 0, t)"]
  from th have "\<forall>e y s'. shuffle [1, 2, 3 :: int] (example_rng\<lparr>consumed := 64\<rparr>) = Some (e, y, s')
      \<longrightarrow> mset y = mset [1, 2, 3]"
    by (rule conjunct1)
  then have m: "mset [3, 2, 1 :: int] = mset [1, 2, 3]"
    using example_shuffle by blast
  have tot: "\<forall>u t. (\<lambda>(u :: int) (t :: rng). Some (Inr (0 :: int) :: error + int, t)) u t \<noteq> None"
    by simp
  from th' have "(\<forall>u t. (\<lambda>(u :: int) (t :: rng). Some (Inr (0 :: int) :: error + int, t)) u t \<noteq> None)
      \<longrightarrow> shuffle_with (\<lambda>u t. Some (Inr 0, t)) [1, 2, 3 :: int] example_rng \<noteq> None"
    by (rule conjunct2 [OF conjunct2])
  with tot have r: "shuffle_with (\<lambda>u t. Some (Inr 0, t)) [1, 2, 3 :: int] example_rng \<noteq> None"
    by (rule rev_mp)
  show ?thesis
    using example_shuffle m r by simp
qed

text \<open>
  C10. For every length \<open>\<le> 0\<close>, negative ones included, \<^verbatim>\<open>_random_bytes(length)\<close>
  returns the empty byte sequence: it returns (no error, no endless loop), and the
  generator and the entropy tape are as before, so no entropy was drawn.
\<close>

theorem random_bytes_nonpositive:
  "len \<le> 0 \<Longrightarrow> random_bytes len s = Some ([], s)"
  by (simp add: random_bytes_def)

text \<open>C10 at length \<open>-3\<close>.\<close>

theorem random_bytes_nonpositive_witness:
  "(-3::int) \<le> 0 \<and>
   random_bytes (-3) \<lparr>server_bytes = replicate 64 0x5A, tape = (\<lambda>i. of_nat i), consumed = 7\<rparr>
     = Some ([], \<lparr>server_bytes = replicate 64 0x5A, tape = (\<lambda>i. of_nat i), consumed = 7\<rparr>)"
  using random_bytes_nonpositive [of "-3" "\<lparr>server_bytes = replicate 64 0x5A, tape = (\<lambda>i. of_nat i), consumed = 7\<rparr>"]
  by simp

end
